theory Spec2Isabelle
  imports Main "HOL-Library.Finite_Map"
begin

section \<open>Data model\<close>

text \<open>
  The classes of \<^verbatim>\<open>ads_helpers.py\<close> as records. A Python \<^verbatim>\<open>dict\<close> is a finite map;
  \<^verbatim>\<open>None\<close>-able fields are options. Field names carry the class as a prefix where two
  classes use the same attribute name.
\<close>

record service =
  svc_name :: string
  svc_home :: string
  svc_description :: "string option"
  start_cmd :: "string option"
  stop_cmd :: "string option"
  status_cmd :: "string option"
  log_paths :: "string list"
  err_log_paths :: "string list"

record service_set =
  ss_name :: string
  selectors :: "string list"

record project =
  proj_name :: string
  proj_home :: string
  services_by_name :: "(string, service) fmap"
  proj_service_sets :: "service_set list"
  proj_default_selector :: string

record profile =
  prof_service_sets :: "service_set list"
  prof_default_selector :: "string option"

record ads =
  ads_project :: project
  ads_profile :: profile

text \<open>
  \<^verbatim>\<open>dict(pairs)\<close> inserts the pairs from left to right, so the last pair with a given key
  is the one that stays; \<^const>\<open>fmap_of_list\<close> keeps the first, hence the \<^const>\<open>rev\<close>.
\<close>

definition dict :: "('k \<times> 'v) list \<Rightarrow> ('k, 'v) fmap" where
  "dict pairs = fmap_of_list (rev pairs)"

text \<open>
  Exceptions. \<^verbatim>\<open>BadSelectorException\<close> is raised at two places of \<^verbatim>\<open>_resolve\<close>, each with
  a formatted message; the model keeps the two format arguments of each
  (\<open>Circular (stack_as_list[0]) stack_as_list\<close> and \<open>Unresolved selector stack_as_list\<close>).
  The other constructors are the built-in exceptions the code can raise: a failed
  \<^verbatim>\<open>assert\<close>, \<^verbatim>\<open>reduce\<close> of an empty sequence without initial value (\<^verbatim>\<open>TypeError\<close>), and
  a missing dictionary key.
\<close>

datatype error =
  AssertionError
  | Circular string "string list"
  | Unresolved string "string list"
  | TypeError
  | KeyError string

fun is_BadSelectorException :: "error \<Rightarrow> bool" where
  "is_BadSelectorException (Circular _ _) = True"
| "is_BadSelectorException (Unresolved _ _) = True"
| "is_BadSelectorException _ = False"

section \<open>The selector stack\<close>

text \<open>
  \<^verbatim>\<open>selector_stack\<close> is an \<^verbatim>\<open>OrderedDict\<close> whose values are all \<^verbatim>\<open>True\<close>: the model is the
  list of its keys in insertion order. Assigning to a key that is present keeps its place;
  \<^verbatim>\<open>popitem(True)\<close> removes the last key and raises \<^verbatim>\<open>KeyError\<close> on an empty dictionary.
\<close>

definition od_setitem :: "string list \<Rightarrow> string \<Rightarrow> string list" where
  "od_setitem stack k = (if k \<in> set stack then stack else stack @ [k])"

definition od_popitem :: "string list \<Rightarrow> error + string list" where
  "od_popitem stack =
     (if stack = [] then Inl (KeyError ''dictionary is empty'') else Inr (butlast stack))"

text \<open>
  \<^verbatim>\<open>reduce(frozenset.__or__, sub_results)\<close> without an initial value: a \<^verbatim>\<open>TypeError\<close> on
  the empty list, otherwise the left fold of the union from the first element.
\<close>

definition reduce_or :: "string set list \<Rightarrow> error + string set" where
  "reduce_or sub_results =
     (case sub_results of [] \<Rightarrow> Inl TypeError | r # rs \<Rightarrow> Inr (foldl (\<union>) r rs))"

section \<open>The resolver\<close>

text \<open>
  \<^verbatim>\<open>_resolve(selector, project, service_sets_by_name, selector_stack)\<close> receives a string
  and three references to mutable objects. The model keeps the three objects in a store
  that every call takes and returns, so that what a call does to them is part of its
  result. An exception leaves \<^verbatim>\<open>_resolve\<close> before \<^verbatim>\<open>popitem\<close>, so the stack then still
  holds what was pushed.
\<close>

record store =
  project :: project
  service_sets_by_name :: "(string, service_set) fmap"
  selector_stack :: "string list"

text \<open>
  \<open>resolve\<close> is \<^verbatim>\<open>_resolve\<close>; \<open>resolve_map\<close> is the eager
  \<^verbatim>\<open>map(lambda s: _resolve(s, ...), selectors)\<close> of Python 2: the members in list order,
  each in the store its predecessor left, stopping at the first exception.
\<close>

function resolve :: "string \<Rightarrow> store \<Rightarrow> (error + string set) \<times> store"
  and resolve_map :: "string list \<Rightarrow> store \<Rightarrow> (error + string set list) \<times> store"
where
  "resolve selector s =
     (if selector = [] then (Inl AssertionError, s)
      else if selector \<in> set (selector_stack s) then
        (let stack_as_list = selector_stack s @ [selector]
         in (Inl (Circular (hd stack_as_list) stack_as_list), s))
      else if selector = ''all'' then
        (Inr (fmdom' (services_by_name (project s))), s)
      else case fmlookup (services_by_name (project s)) selector of
        Some svc \<Rightarrow> (Inr {svc_name svc}, s)
      | None \<Rightarrow>
         (case fmlookup (service_sets_by_name s) selector of
            Some ss \<Rightarrow>
              (case resolve_map (selectors ss)
                      (s\<lparr>selector_stack := od_setitem (selector_stack s) selector\<rparr>) of
                 (Inl e, s') \<Rightarrow> (Inl e, s')
               | (Inr sub_results, s') \<Rightarrow>
                   (case od_popitem (selector_stack s') of
                      Inl e \<Rightarrow> (Inl e, s')
                    | Inr stack' \<Rightarrow> (reduce_or sub_results, s'\<lparr>selector_stack := stack'\<rparr>)))
          | None \<Rightarrow>
              (let stack_as_list = selector_stack s @ [selector]
               in (Inl (Unresolved selector stack_as_list), s))))"
| "resolve_map [] s = (Inr [], s)"
| "resolve_map (x # rest) s =
     (case resolve x s of
        (Inl e, s') \<Rightarrow> (Inl e, s')
      | (Inr r, s') \<Rightarrow>
          (case resolve_map rest s' of
             (Inl e, s'') \<Rightarrow> (Inl e, s'')
           | (Inr rs, s'') \<Rightarrow> (Inr (r # rs), s'')))"
  by pat_completeness auto

text \<open>
  Termination: a call that returns normally hands the store back as it got it, so along
  the members of one group the stack is the same, and each expansion of a group adds a
  key of the finite namespace to the stack that was not there.
\<close>

lemma resolve_returns_store_dom:
  "resolve_resolve_map_dom (Inl (selector, s)) \<Longrightarrow>
     (\<forall>r s'. resolve selector s = (Inr r, s') \<longrightarrow> s' = s)"
  "resolve_resolve_map_dom (Inr (members, s)) \<Longrightarrow>
     (\<forall>rs s'. resolve_map members s = (Inr rs, s') \<longrightarrow> s' = s)"
proof (induction rule: resolve_resolve_map.pinduct)
  case (1 selector s)
  show ?case
    using 1
    apply (simp only: resolve.psimps[OF 1(1)])
    apply (auto simp: od_setitem_def od_popitem_def reduce_or_def Let_def
                split: if_splits option.splits sum.splits prod.splits list.splits)
    done
next
  case (2 s)
  then show ?case by (simp add: resolve_map.psimps)
next
  case (3 x rest s)
  show ?case
  proof (intro allI impI)
    fix rs s'
    assume eq: "resolve_map (x # rest) s = (Inr rs, s')"
    obtain a b where ab: "resolve x s = (a, b)"
      by (cases "resolve x s")
    from eq ab obtain r where r: "a = Inr r"
      by (cases a) (simp_all add: resolve_map.psimps(2)[OF 3(1)])
    from 3(2) ab r have b: "b = s" by simp
    have ih: "\<forall>rs s'. resolve_map rest b = (Inr rs, s') \<longrightarrow> s' = b"
      using 3(3)[OF ab[symmetric] r] .
    obtain c d where cd: "resolve_map rest b = (c, d)"
      by (cases "resolve_map rest b")
    from eq ab r cd obtain rs' where "c = Inr rs'" and "s' = d"
      by (cases c) (simp_all add: resolve_map.psimps(2)[OF 3(1)])
    with ih cd b show "s' = s" by simp
  qed
qed

termination resolve
proof (relation "inv_image
    (measure (\<lambda>s. card (fmdom' (service_sets_by_name s) - set (selector_stack s)))
       <*lex*> measure id)
    (\<lambda>x. case x of Inl (selector, s) \<Rightarrow> (s, 0::nat)
                 | Inr (members, s) \<Rightarrow> (s, Suc (length members)))", goal_cases)
  case 1
  show ?case by auto
next
  case (2 selector s ss)
  have "finite (fmdom' (service_sets_by_name s) - set (selector_stack s))" by simp
  moreover have "selector \<in> fmdom' (service_sets_by_name s) - set (selector_stack s)"
    using 2 by (auto simp: fmdom'I)
  ultimately have
    "card (fmdom' (service_sets_by_name s) - set (selector_stack s @ [selector]))
      < card (fmdom' (service_sets_by_name s) - set (selector_stack s))"
    by (intro psubset_card_mono) auto
  with 2 show ?case by (simp add: od_setitem_def)
next
  case (3 x rest s)
  then show ?case by simp
next
  case (4 x rest s a b r)
  with resolve_returns_store_dom(1)[OF 4(3)] have "b = s" by metis
  then show ?case by simp
qed

declare resolve.simps [simp del]

section \<open>ServiceSet, Project, Profile and the facade\<close>

text \<open>
  \<^verbatim>\<open>ServiceSet.resolve(selector, project, service_sets)\<close>: the namespace is a new
  dictionary from the list of groups, the stack a new empty \<^verbatim>\<open>OrderedDict\<close>; both are
  local to the call, which returns the result of \<^verbatim>\<open>_resolve\<close> only.
\<close>

definition by_name :: "service_set list \<Rightarrow> (string, service_set) fmap" where
  "by_name service_sets = dict (map (\<lambda>s. (ss_name s, s)) service_sets)"

definition ServiceSet_resolve ::
    "string \<Rightarrow> project \<Rightarrow> service_set list \<Rightarrow> error + string set" where
  "ServiceSet_resolve selector proj service_sets =
     fst (resolve selector
            \<lparr>project = proj, service_sets_by_name = by_name service_sets,
             selector_stack = []\<rparr>)"

text \<open>\<^verbatim>\<open>Project.__init__\<close> and \<^verbatim>\<open>Profile.__init__\<close>; an omitted list argument is \<open>[]\<close>.\<close>

definition Project ::
    "string \<Rightarrow> string \<Rightarrow> service list \<Rightarrow> service_set list \<Rightarrow> string \<Rightarrow> project" where
  "Project name home services service_sets default_selector =
     \<lparr>proj_name = name, proj_home = home,
      services_by_name = dict (map (\<lambda>s. (svc_name s, s)) services),
      proj_service_sets = service_sets,
      proj_default_selector = default_selector\<rparr>"

definition Profile :: "service_set list \<Rightarrow> string option \<Rightarrow> profile" where
  "Profile service_sets default_selector =
     \<lparr>prof_service_sets = service_sets, prof_default_selector = default_selector\<rparr>"

text \<open>
  \<^verbatim>\<open>self.profile.default_selector or self.project.default_selector\<close>: Python's \<^verbatim>\<open>or\<close>
  takes the right operand when the left one is \<^verbatim>\<open>None\<close> or the empty string.
\<close>

definition get_default_selector :: "ads \<Rightarrow> string" where
  "get_default_selector self =
     (case prof_default_selector (ads_profile self) of
        None \<Rightarrow> proj_default_selector (ads_project self)
      | Some d \<Rightarrow> if d = [] then proj_default_selector (ads_project self) else d)"

definition Ads_resolve :: "ads \<Rightarrow> string \<Rightarrow> error + string set" where
  "Ads_resolve self selector =
     ServiceSet_resolve
       (if selector = ''default'' then get_default_selector self else selector)
       (ads_project self)
       (proj_service_sets (ads_project self) @ prof_service_sets (ads_profile self))"

section \<open>Listing\<close>

text \<open>
  The order in which Python 2 iterates over a \<^verbatim>\<open>frozenset\<close> or a \<^verbatim>\<open>dict\<close> is not fixed
  by the program; the model takes it as a parameter.
\<close>

record iteration =
  frozenset_iter :: "string set \<Rightarrow> string list"
  dict_values :: "(string, service) fmap \<Rightarrow> service list"
  dict_items :: "(string, string) fmap \<Rightarrow> (string \<times> string) list"

fun join :: "string \<Rightarrow> string list \<Rightarrow> string" where
  "join sep [] = []"
| "join sep [x] = x"
| "join sep (x # y # zs) = x @ sep @ join sep (y # zs)"

definition get_description_or_default :: "service \<Rightarrow> string" where
  "get_description_or_default self =
     (case svc_description self of
        None \<Rightarrow> ''(No description)''
      | Some d \<Rightarrow> if d = [] then ''(No description)'' else d)"

definition Service_as_printable_dict :: "service list \<Rightarrow> (string, string) fmap" where
  "Service_as_printable_dict services =
     dict (map (\<lambda>s. (svc_name s, get_description_or_default s)) services)"

definition ServiceSet_as_printable_dict :: "service_set list \<Rightarrow> (string, string) fmap" where
  "ServiceSet_as_printable_dict service_sets =
     dict (map (\<lambda>s. (ss_name s, join '', '' (selectors s))) service_sets)"

text \<open>
  \<^verbatim>\<open>Treelisting\<close>: a section is \<^verbatim>\<open>(heading, listing_dict, empty_msg)\<close>. \<open>pretty_print\<close>
  returns what the \<^verbatim>\<open>print\<close> statements write, one string for each; the format
  \<^verbatim>\<open>"%<width>s: %s"\<close> pads the key with blanks on the left. A section that is empty and
  has no \<^verbatim>\<open>empty_msg\<close> raises \<^verbatim>\<open>TypeError\<close> (a string plus \<^verbatim>\<open>None\<close>).
\<close>

type_synonym tree_section = "string \<times> (string, string) fmap \<times> string option"

definition rjust :: "nat \<Rightarrow> string \<Rightarrow> string" where
  "rjust width k = replicate (width - length k) CHR '' '' @ k"

definition print_section :: "iteration \<Rightarrow> nat \<Rightarrow> tree_section \<Rightarrow> error + string list" where
  "print_section it column_width sec =
     (case sec of (heading, listing_dict, empty_msg) \<Rightarrow>
        if listing_dict = fmempty then
          (case empty_msg of
             None \<Rightarrow> Inl TypeError
           | Some msg \<Rightarrow> Inr [[CHR 0x0A] @ heading @ [CHR 0x0A] @ '' '' @ msg])
        else
          Inr (([CHR 0x0A] @ heading)
               # map (\<lambda>(k, v). rjust column_width k @ '': '' @ v)
                   (dict_items it listing_dict)))"

fun print_sections :: "iteration \<Rightarrow> nat \<Rightarrow> tree_section list \<Rightarrow> error + string list" where
  "print_sections it column_width [] = Inr []"
| "print_sections it column_width (sec # rest) =
     (case print_section it column_width sec of
        Inl e \<Rightarrow> Inl e
      | Inr out \<Rightarrow>
          (case print_sections it column_width rest of
             Inl e \<Rightarrow> Inl e
           | Inr out' \<Rightarrow> Inr (out @ out')))"

definition pretty_print :: "iteration \<Rightarrow> tree_section list \<Rightarrow> error + string list" where
  "pretty_print it sections =
     (let all_keys =
            concat (map (\<lambda>(heading, listing_dict, _). map fst (dict_items it listing_dict))
                      sections)
      in if length all_keys = 0 then Inr []
         else print_sections it (Max (set (map length all_keys)) + 1) sections)"

text \<open>
  \<^verbatim>\<open>Ads.list\<close>. The \<^verbatim>\<open>try\<close> catches \<^verbatim>\<open>BadSelectorException\<close> only; any other exception
  of the resolution goes on to the caller. The lookup
  \<^verbatim>\<open>self.project.services_by_name[default_selector]\<close> raises \<^verbatim>\<open>KeyError\<close> on a missing key.
  \<open>quoted\<close> puts a word between two apostrophes.
\<close>

definition quoted :: "string \<Rightarrow> string" where
  "quoted w = [CHR 0x27] @ w @ [CHR 0x27]"

definition Ads_list :: "iteration \<Rightarrow> ads \<Rightarrow> error + string list" where
  "Ads_list it self =
     (let default_selector = get_default_selector self
      in case (case Ads_resolve self default_selector of
                 Inr names \<Rightarrow> Inr (join '', '' (frozenset_iter it names))
               | Inl e \<Rightarrow> if is_BadSelectorException e then Inr ''(Unresolved)'' else Inl e) of
           Inl e \<Rightarrow> Inl e
         | Inr default_description \<Rightarrow>
            (case (if default_description = default_selector then
                     (case fmlookup (services_by_name (ads_project self)) default_selector of
                        None \<Rightarrow> Inl (KeyError default_selector)
                      | Some default_service \<Rightarrow>
                          Inr (get_description_or_default default_service))
                   else Inr default_description) of
               Inl e \<Rightarrow> Inl e
             | Inr default_description \<Rightarrow>
                 pretty_print it
                   [(''All services in current project ('' @ proj_name (ads_project self)
                       @ ''):'',
                     Service_as_printable_dict
                       (dict_values it (services_by_name (ads_project self))),
                     Some ''None (create ads.yml files in this dir tree)''),
                    (''Groups defined in current project:'',
                     ServiceSet_as_printable_dict (proj_service_sets (ads_project self)),
                     Some (''None (add '' @ quoted ''groups'' @ '' to adsroot.yml)'')),
                    (''Groups defined in your ads profile:'',
                     ServiceSet_as_printable_dict (prof_service_sets (ads_profile self)),
                     Some (''None (add '' @ quoted ''groups'' @ '' to ~/.ads_profile.yml)'')),
                    (''Default service for commands if none are specified:'',
                     dict [(default_selector, default_description)],
                     None)]))"

text \<open>
  The message of a \<^verbatim>\<open>BadSelectorException\<close>, as the two \<^verbatim>\<open>raise\<close> statements format it.
\<close>

fun message :: "error \<Rightarrow> string" where
  "message (Circular first stack_as_list) =
     ''Definition of selector '' @ quoted first @ '' is circular: ''
       @ join '' -> '' stack_as_list"
| "message (Unresolved selector stack_as_list) =
     ''No service or selector named '' @ quoted selector @ ''. Reference chain: ''
       @ join '' -> '' stack_as_list"
| "message _ = []"

section \<open>Constructors and a sample project\<close>

text \<open>\<^verbatim>\<open>ServiceSet.__init__\<close> and \<^verbatim>\<open>Service.__init__\<close> (\<^verbatim>\<open>log_paths or []\<close>).\<close>

definition ServiceSet :: "string \<Rightarrow> string list \<Rightarrow> service_set" where
  "ServiceSet name selector_set = \<lparr>ss_name = name, selectors = selector_set\<rparr>"

definition Service ::
    "string \<Rightarrow> string \<Rightarrow> string option \<Rightarrow> string option \<Rightarrow> string option \<Rightarrow> string option
      \<Rightarrow> string list option \<Rightarrow> string list option \<Rightarrow> service" where
  "Service name home description start stop status logs err_logs =
     \<lparr>svc_name = name, svc_home = home, svc_description = description,
      start_cmd = start, stop_cmd = stop, status_cmd = status,
      log_paths = (case logs of None \<Rightarrow> [] | Some l \<Rightarrow> l),
      err_log_paths = (case err_logs of None \<Rightarrow> [] | Some l \<Rightarrow> l)\<rparr>"

text \<open>
  The project of the scenarios: services \<open>api\<close>, \<open>db\<close> and \<open>web\<close>, no project groups,
  default selector "all".
\<close>

definition demo_project :: project where
  "demo_project =
     Project ''demo'' ''/demo''
       [Service ''api'' ''/demo/api'' None None None None None None,
        Service ''db'' ''/demo/db'' None None None None None None,
        Service ''web'' ''/demo/web'' None None None None None None]
       [] ''all''"

text \<open>\<^verbatim>\<open>Ads.__init__\<close>.\<close>

definition Ads :: "project \<Rightarrow> profile \<Rightarrow> ads" where
  "Ads proj prof = \<lparr>ads_project = proj, ads_profile = prof\<rparr>"


section \<open>The cache\<close>






section \<open>Descent into a cycle\<close>

text \<open>
  The selectors that resolution of \<open>x\<close> reaches one after the other, \<open>ys\<close>, ending at one
  that is on the stack: \<open>x\<close> is expanded as a group, the members listed before the first
  \<open>y\<close> return a value, and from \<open>y\<close> the descent goes on along the rest.
\<close>

fun descends :: "store \<Rightarrow> string \<Rightarrow> string list \<Rightarrow> bool" where
  "descends s x [] = (x \<noteq> [] \<and> x \<in> set (selector_stack s))"
| "descends s x (y # ys) =
     (x \<noteq> [] \<and> x \<notin> set (selector_stack s) \<and> x \<noteq> ''all''
      \<and> fmlookup (services_by_name (project s)) x = None
      \<and> (case fmlookup (service_sets_by_name s) x of
            None \<Rightarrow> False
          | Some ss \<Rightarrow>
              y \<in> set (selectors ss)
              \<and> list_all
                  (\<lambda>m. \<not> isl (fst (resolve m (s\<lparr>selector_stack := selector_stack s @ [x]\<rparr>))))
                  (takeWhile (\<lambda>m. m \<noteq> y) (selectors ss))
              \<and> descends (s\<lparr>selector_stack := selector_stack s @ [x]\<rparr>) y ys))"

section \<open>Facts about dictionaries and the resolver\<close>

lemma fmlookup_dict: "fmlookup (dict ps) k = map_of (rev ps) k"
  by (simp add: dict_def fmlookup_of_list)

lemma fmdom'_dict: "fmdom' (dict ps) = fst ` set ps"
  by (simp add: dict_def fmdom'_alt_def fset_of_list.rep_eq)

text \<open>A call that returns a value returns the store it was given.\<close>

lemma resolve_returns_store:
  "(\<forall>r s'. resolve selector s = (Inr r, s') \<longrightarrow> s' = s)"
  "(\<forall>rs s'. resolve_map members s = (Inr rs, s') \<longrightarrow> s' = s)"
proof (induction selector s and members s rule: resolve_resolve_map.induct)
  case (1 selector s)
  show ?case
    using 1
    apply (subst resolve.simps)
    apply (auto simp: od_setitem_def od_popitem_def reduce_or_def Let_def
                split: if_splits option.splits sum.splits prod.splits list.splits)
    done
next
  case (2 s)
  then show ?case by simp
next
  case (3 x rest s)
  show ?case
  proof (intro allI impI)
    fix rs s'
    assume eq: "resolve_map (x # rest) s = (Inr rs, s')"
    obtain a b where ab: "resolve x s = (a, b)"
      by (cases "resolve x s")
    from eq ab obtain r where r: "a = Inr r"
      by (cases a) simp_all
    from 3(1) ab r have b: "b = s" by simp
    have ih: "\<forall>rs s'. resolve_map rest b = (Inr rs, s') \<longrightarrow> s' = b"
      using 3(2)[OF ab[symmetric] r] .
    obtain c d where cd: "resolve_map rest b = (c, d)"
      by (cases "resolve_map rest b")
    from eq ab r cd obtain rs' where "c = Inr rs'" and "s' = d"
      by (cases c) simp_all
    with ih cd b show "s' = s" by simp
  qed
qed

text \<open>No call, returning or raising, changes the project or the namespace.\<close>

lemma resolve_frame:
  "project (snd (resolve selector s)) = project s
     \<and> service_sets_by_name (snd (resolve selector s)) = service_sets_by_name s"
  "project (snd (resolve_map members s)) = project s
     \<and> service_sets_by_name (snd (resolve_map members s)) = service_sets_by_name s"
proof (induction selector s and members s rule: resolve_resolve_map.induct)
  case (1 selector s)
  show ?case
    using 1
    apply (subst (1 2) resolve.simps)
    apply (auto simp: Let_def split: if_splits option.splits sum.splits prod.splits)
    done
next
  case (2 s)
  then show ?case by simp
next
  case (3 x rest s)
  show ?case
  proof (cases "resolve x s")
    case (Pair a b)
    show ?thesis
    proof (cases a)
      case (Inl e)
      with Pair 3(1) show ?thesis by simp
    next
      case (Inr r)
      with Pair 3(1) 3(2)[OF Pair[symmetric] Inr] show ?thesis
        by (auto split: prod.splits sum.splits)
    qed
  qed
qed

section \<open>Failures inside a group\<close>

text \<open>The members before the first failing one return; the failure is the map's.\<close>

lemma resolve_map_first_error:
  "\<forall>m \<in> set pre. \<not> isl (fst (resolve m s)) \<Longrightarrow> resolve y s = (Inl e, s')
     \<Longrightarrow> resolve_map (pre @ y # post) s = (Inl e, s')"
proof (induction pre)
  case Nil
  then show ?case by simp
next
  case (Cons a pre)
  obtain r t where rt: "resolve a s = (r, t)" by (cases "resolve a s")
  with Cons.prems(1) obtain v where v: "r = Inr v" by (cases r) auto
  with rt resolve_returns_store(1) have "t = s" by blast
  with Cons rt v show ?case by simp
qed

lemma takeWhile_split:
  "y \<in> set xs \<Longrightarrow> \<exists>post. xs = takeWhile (\<lambda>m. m \<noteq> y) xs @ y # post"
proof (induction xs)
  case Nil
  then show ?case by simp
next
  case (Cons a xs)
  then show ?case by (cases "a = y") auto
qed


lemma descends_circular:
  "descends s x ys \<Longrightarrow>
     resolve x s =
       (Inl (Circular (hd (selector_stack s @ [x])) (selector_stack s @ x # ys)),
        s\<lparr>selector_stack := selector_stack s @ butlast (x # ys)\<rparr>)"
proof (induction ys arbitrary: s x)
  case Nil
  then have "x \<noteq> []" "x \<in> set (selector_stack s)" by simp_all
  then show ?case
    by (subst resolve.simps) (simp add: Let_def)
next
  case (Cons y ys)
  let ?s' = "s\<lparr>selector_stack := selector_stack s @ [x]\<rparr>"
  from Cons.prems have
    x: "x \<noteq> []" "x \<notin> set (selector_stack s)" "x \<noteq> ''all''"
       "fmlookup (services_by_name (project s)) x = None"
    by simp_all
  from Cons.prems obtain ss where
    ss: "fmlookup (service_sets_by_name s) x = Some ss"
    by (cases "fmlookup (service_sets_by_name s) x") simp_all
  from Cons.prems ss have
    y: "y \<in> set (selectors ss)"
    and pre: "list_all (\<lambda>m. \<not> isl (fst (resolve m ?s'))) (takeWhile (\<lambda>m. m \<noteq> y) (selectors ss))"
    and d: "descends ?s' y ys"
    by simp_all
  from takeWhile_split[OF y] obtain post where
    sp: "selectors ss = takeWhile (\<lambda>m. m \<noteq> y) (selectors ss) @ y # post" ..
  define e where "e = Circular (hd (selector_stack ?s' @ [y])) (selector_stack ?s' @ y # ys)"
  define t where "t = ?s'\<lparr>selector_stack := selector_stack ?s' @ butlast (y # ys)\<rparr>"
  have ih: "resolve y ?s' = (Inl e, t)"
    unfolding e_def t_def by (rule Cons.IH[OF d])
  have "\<forall>m \<in> set (takeWhile (\<lambda>m. m \<noteq> y) (selectors ss)). \<not> isl (fst (resolve m ?s'))"
    using pre by (simp add: list_all_iff)
  from resolve_map_first_error[OF this ih, of post] sp
  have m: "resolve_map (selectors ss) ?s' = (Inl e, t)"
    by simp
  have "resolve x s = (Inl e, t)"
    using x ss m by (subst resolve.simps) (simp add: od_setitem_def)
  moreover have "hd (selector_stack s @ [x] @ [y]) = hd (selector_stack s @ [x])"
    by (cases "selector_stack s") simp_all
  ultimately show ?case
    by (simp add: e_def t_def)
qed

section \<open>Members resolved inside their group\<close>

text \<open>
  A selector that is on the stack fails, and so does every list of members that holds
  one: the members before it either fail or hand the stack back unchanged.
\<close>

lemma on_stack_fails: "x \<in> set (selector_stack s) \<Longrightarrow> isl (fst (resolve x s))"
  by (subst resolve.simps) (simp add: Let_def)

lemma member_on_stack_fails:
  "m \<in> set members \<Longrightarrow> m \<in> set (selector_stack s) \<Longrightarrow> isl (fst (resolve_map members s))"
proof (induction members)
  case Nil
  then show ?case by simp
next
  case (Cons a members)
  obtain r t where rt: "resolve a s = (r, t)" by (cases "resolve a s")
  show ?case
  proof (cases r)
    case (Inl e)
    with rt show ?thesis by simp
  next
    case (Inr v)
    with rt resolve_returns_store(1) have t: "t = s" by blast
    have "a \<noteq> m"
    proof
      assume "a = m"
      with Cons.prems(2) on_stack_fails have "isl (fst (resolve a s))" by blast
      with rt Inr show False by simp
    qed
    with Cons have ih: "isl (fst (resolve_map members s))" by simp
    obtain c d where cd: "resolve_map members s = (c, d)" by (cases "resolve_map members s")
    with ih obtain e where "c = Inl e" by (cases c) simp_all
    with rt Inr t cd show ?thesis by simp
  qed
qed

lemma resolve_map_Cons_Inr:
  "resolve_map (x # rest) s = (Inr rs, s') \<Longrightarrow>
     \<exists>r rs'. rs = r # rs' \<and> resolve x s = (Inr r, s) \<and> resolve_map rest s = (Inr rs', s)
       \<and> s' = s"
proof -
  assume eq: "resolve_map (x # rest) s = (Inr rs, s')"
  obtain a b where ab: "resolve x s = (a, b)" by (cases "resolve x s")
  from eq ab obtain r where r: "a = Inr r" by (cases a) simp_all
  with ab resolve_returns_store(1) have b: "b = s" by blast
  obtain c d where cd: "resolve_map rest s = (c, d)" by (cases "resolve_map rest s")
  from eq ab r b cd obtain rs' where c: "c = Inr rs'" by (cases c) simp_all
  with cd resolve_returns_store(2) have d: "d = s" by blast
  from eq ab r b cd c d show ?thesis by simp
qed

lemma resolve_group_Inr:
  assumes "resolve x s = (Inr r, s')"
    and "x \<noteq> ''all''" and "fmlookup (services_by_name (project s)) x = None"
  shows "\<exists>ss rs. fmlookup (service_sets_by_name s) x = Some ss
           \<and> resolve_map (selectors ss) (s\<lparr>selector_stack := selector_stack s @ [x]\<rparr>)
               = (Inr rs, s\<lparr>selector_stack := selector_stack s @ [x]\<rparr>)
           \<and> reduce_or rs = Inr r \<and> x \<noteq> [] \<and> x \<notin> set (selector_stack s)"
proof -
  have x: "x \<noteq> []" "x \<notin> set (selector_stack s)"
    using assms(1) by (subst (asm) resolve.simps, simp add: Let_def split: if_splits)+
  obtain ss where ss: "fmlookup (service_sets_by_name s) x = Some ss"
    using assms x by (cases "fmlookup (service_sets_by_name s) x")
      (subst (asm) resolve.simps, simp add: Let_def)+
  let ?s1 = "s\<lparr>selector_stack := selector_stack s @ [x]\<rparr>"
  obtain c d where cd: "resolve_map (selectors ss) ?s1 = (c, d)"
    by (cases "resolve_map (selectors ss) ?s1")
  have unfold: "resolve x s =
      (case c of Inl e \<Rightarrow> (Inl e, d)
       | Inr sub_results \<Rightarrow>
          (case od_popitem (selector_stack d) of
             Inl e \<Rightarrow> (Inl e, d)
           | Inr stack' \<Rightarrow> (reduce_or sub_results, d\<lparr>selector_stack := stack'\<rparr>)))"
    using x assms(2,3) ss cd by (subst resolve.simps) (simp add: od_setitem_def)
  from unfold assms(1) obtain rs where c: "c = Inr rs" by (cases c) simp_all
  with cd resolve_returns_store(2) have d: "d = ?s1" by blast
  from unfold c d assms(1) have "reduce_or rs = Inr r"
    by (simp add: od_popitem_def)
  with ss cd c d x show ?thesis by simp
qed

lemma push_front_keeps_result:
  "\<lbrakk>resolve x s = (Inr r, s'); fmlookup (service_sets_by_name s) n = Some grp;
    m \<in> set (selectors grp); n \<noteq> ''all''; fmlookup (services_by_name (project s)) n = None;
    m \<in> set (selector_stack s)\<rbrakk>
   \<Longrightarrow> resolve x (s\<lparr>selector_stack := n # selector_stack s\<rparr>)
         = (Inr r, s\<lparr>selector_stack := n # selector_stack s\<rparr>)"
  "\<lbrakk>resolve_map xs s = (Inr rs, s'); fmlookup (service_sets_by_name s) n = Some grp;
    m \<in> set (selectors grp); n \<noteq> ''all''; fmlookup (services_by_name (project s)) n = None;
    m \<in> set (selector_stack s)\<rbrakk>
   \<Longrightarrow> resolve_map xs (s\<lparr>selector_stack := n # selector_stack s\<rparr>)
         = (Inr rs, s\<lparr>selector_stack := n # selector_stack s\<rparr>)"
proof (induction x s and xs s arbitrary: r s' and rs s' rule: resolve_resolve_map.induct)
  case (1 selector s)
  let ?t = "s\<lparr>selector_stack := n # selector_stack s\<rparr>"
  note ok = "1.prems"(1)
  have sel: "selector \<noteq> []" "selector \<notin> set (selector_stack s)"
    using ok by (subst (asm) resolve.simps, simp add: Let_def split: if_splits)+
  show ?case
  proof (cases "selector = ''all''")
    case True
    with ok sel have "r = fmdom' (services_by_name (project s))"
      by (subst (asm) resolve.simps) auto
    with True sel "1.prems"(4) show ?thesis
      by (subst resolve.simps) simp
  next
    case notall: False
    show ?thesis
    proof (cases "fmlookup (services_by_name (project s)) selector")
      case (Some svc)
      with ok sel notall have "r = {svc_name svc}"
        by (subst (asm) resolve.simps) auto
      moreover from Some "1.prems"(5) have "selector \<noteq> n" by auto
      ultimately show ?thesis
        using Some sel notall by (subst resolve.simps) simp
    next
      case None
      from resolve_group_Inr[OF ok notall None] obtain ss rs where
        ss: "fmlookup (service_sets_by_name s) selector = Some ss"
        and m1: "resolve_map (selectors ss) (s\<lparr>selector_stack := selector_stack s @ [selector]\<rparr>)
               = (Inr rs, s\<lparr>selector_stack := selector_stack s @ [selector]\<rparr>)"
        and red: "reduce_or rs = Inr r"
        by blast
      let ?s1 = "s\<lparr>selector_stack := od_setitem (selector_stack s) selector\<rparr>"
      have s1: "?s1 = s\<lparr>selector_stack := selector_stack s @ [selector]\<rparr>"
        using sel by (simp add: od_setitem_def)
      have neq: "selector \<noteq> n"
      proof
        assume "selector = n"
        with ss "1.prems"(2) have "ss = grp" by simp
        with "1.prems"(3,6) have "isl (fst (resolve_map (selectors ss)
              (s\<lparr>selector_stack := selector_stack s @ [selector]\<rparr>)))"
          by (intro member_on_stack_fails[of m]) simp_all
        with m1 show False by simp
      qed
      have "resolve_map (selectors ss) (?s1\<lparr>selector_stack := n # selector_stack ?s1\<rparr>)
           = (Inr rs, ?s1\<lparr>selector_stack := n # selector_stack ?s1\<rparr>)"
      proof (rule "1.IH"[OF sel notall None ss])
        show "resolve_map (selectors ss) ?s1 = (Inr rs, ?s1)" using m1 s1 by simp
        show "fmlookup (service_sets_by_name ?s1) n = Some grp" using "1.prems"(2) by simp
        show "m \<in> set (selectors grp)" by (rule "1.prems"(3))
        show "n \<noteq> ''all''" by (rule "1.prems"(4))
        show "fmlookup (services_by_name (project ?s1)) n = None" using "1.prems"(5) by simp
        show "m \<in> set (selector_stack ?s1)" using "1.prems"(6) sel by (simp add: od_setitem_def)
      qed
      then have m2: "resolve_map (selectors ss)
             (?t\<lparr>selector_stack := od_setitem (selector_stack ?t) selector\<rparr>)
           = (Inr rs, s\<lparr>selector_stack := n # selector_stack s @ [selector]\<rparr>)"
        using sel neq by (simp add: od_setitem_def)
      show ?thesis
        using sel neq notall None ss m2 red
        by (subst resolve.simps) (simp add: od_popitem_def butlast_append)
    qed
  qed
next
  case (2 s)
  then show ?case by simp
next
  case (3 x rest s)
  let ?t = "s\<lparr>selector_stack := n # selector_stack s\<rparr>"
  from resolve_map_Cons_Inr[OF "3.prems"(1)] obtain r0 rs0 where
    rs: "rs = r0 # rs0" and a: "resolve x s = (Inr r0, s)"
    and b: "resolve_map rest s = (Inr rs0, s)"
    by blast
  have 1: "resolve x ?t = (Inr r0, ?t)"
    by (rule "3.IH"(1)[OF a "3.prems"(2-6)])
  have 2: "resolve_map rest ?t = (Inr rs0, ?t)"
    by (rule "3.IH"(2)[OF a[symmetric] refl b "3.prems"(2-6)])
  from 1 2 rs show ?case by simp
qed

text \<open>
  A member that resolves from the top level resolves to the same set while its group is
  being expanded.
\<close>

lemma member_under_group:
  assumes top: "resolve m \<lparr>project = p, service_sets_by_name = g, selector_stack = []\<rparr>
                  = (Inr r, s')"
    and grp: "fmlookup g n = Some grp" and mem: "m \<in> set (selectors grp)"
    and n: "n \<noteq> ''all''" "fmlookup (services_by_name p) n = None"
  shows "resolve m \<lparr>project = p, service_sets_by_name = g, selector_stack = [n]\<rparr>
           = (Inr r, \<lparr>project = p, service_sets_by_name = g, selector_stack = [n]\<rparr>)"
proof -
  let ?s0 = "\<lparr>project = p, service_sets_by_name = g, selector_stack = []\<rparr>"
  let ?sn = "\<lparr>project = p, service_sets_by_name = g, selector_stack = [n]\<rparr>"
  have m0: "m \<noteq> []"
    using top by (subst (asm) resolve.simps) (simp split: if_splits)
  show ?thesis
  proof (cases "m = ''all''")
    case True
    with top have "r = fmdom' (services_by_name p)"
      by (subst (asm) resolve.simps) auto
    with True n show ?thesis
      by (subst resolve.simps) simp
  next
    case notall: False
    show ?thesis
    proof (cases "fmlookup (services_by_name p) m")
      case (Some svc)
      with top m0 notall have "r = {svc_name svc}"
        by (subst (asm) resolve.simps) auto
      moreover from Some n have "m \<noteq> n" by auto
      ultimately show ?thesis
        using Some m0 notall by (subst resolve.simps) simp
    next
      case None
      from resolve_group_Inr[OF top notall] None obtain ss rs where
        ss: "fmlookup g m = Some ss"
        and m1: "resolve_map (selectors ss)
                   \<lparr>project = p, service_sets_by_name = g, selector_stack = [m]\<rparr>
               = (Inr rs, \<lparr>project = p, service_sets_by_name = g, selector_stack = [m]\<rparr>)"
        and red: "reduce_or rs = Inr r"
        by auto
      have neq: "m \<noteq> n"
      proof
        assume "m = n"
        with ss grp have "ss = grp" by simp
        with mem have "isl (fst (resolve_map (selectors ss)
              \<lparr>project = p, service_sets_by_name = g, selector_stack = [m]\<rparr>))"
          by (intro member_on_stack_fails[of m]) simp_all
        with m1 show False by simp
      qed
      have "resolve_map (selectors ss)
              (\<lparr>project = p, service_sets_by_name = g, selector_stack = [m]\<rparr>
                 \<lparr>selector_stack := n # selector_stack
                    \<lparr>project = p, service_sets_by_name = g, selector_stack = [m]\<rparr>\<rparr>)
          = (Inr rs, \<lparr>project = p, service_sets_by_name = g, selector_stack = [m]\<rparr>
                 \<lparr>selector_stack := n # selector_stack
                    \<lparr>project = p, service_sets_by_name = g, selector_stack = [m]\<rparr>\<rparr>)"
        using grp mem n by (intro push_front_keeps_result(2)[OF m1, of n grp m]) simp_all
      then have m2: "resolve_map (selectors ss)
              \<lparr>project = p, service_sets_by_name = g, selector_stack = [n, m]\<rparr>
          = (Inr rs, \<lparr>project = p, service_sets_by_name = g, selector_stack = [n, m]\<rparr>)"
        by simp
      show ?thesis
        using m0 neq notall None ss m2 red
        by (subst resolve.simps) (simp add: od_popitem_def od_setitem_def)
    qed
  qed
qed

lemma resolve_map_all_return:
  "\<forall>m \<in> set members. resolve m s = (Inr (f m), s)
     \<Longrightarrow> resolve_map members s = (Inr (map f members), s)"
  by (induction members) simp_all

lemma foldl_union: "foldl (\<union>) (r :: 'a set) rs = r \<union> \<Union> (set rs)"
  by (induction rs arbitrary: r) auto

lemma reduce_or_union: "rs \<noteq> [] \<Longrightarrow> reduce_or rs = Inr (\<Union> (set rs))"
  by (cases rs) (auto simp: reduce_or_def foldl_union)

section \<open>The selector "all"\<close>

text \<open>
  C1. For every project and every list of groups, resolving the selector "all" returns
  exactly the keys of the project's \<^verbatim>\<open>services_by_name\<close>, whatever the groups are (also
  a group named "all"); for a project built by \<^verbatim>\<open>Project.__init__\<close> these are the names
  of its services, and the facade resolves "all" to the same set.
\<close>

theorem resolve_all_is_every_service:
  "ServiceSet_resolve ''all'' proj service_sets = Inr (fmdom' (services_by_name proj))
   \<and> ServiceSet_resolve ''all'' (Project name home services sets d) service_sets
       = Inr (svc_name ` set services)
   \<and> Ads_resolve self ''all'' = Inr (fmdom' (services_by_name (ads_project self)))"
  by (simp add: ServiceSet_resolve_def Ads_resolve_def resolve.simps Project_def fmdom'_dict
        image_image)


text \<open>Unfolding the model on the sample project.\<close>

lemmas demo_eval = ServiceSet_resolve_def Ads_resolve_def resolve.simps Project_def
  fmdom'_dict fmlookup_dict by_name_def ServiceSet_def Service_def demo_project_def
  od_setitem_def od_popitem_def reduce_or_def Let_def

section \<open>Groups without members\<close>

text \<open>
  C3. The claim is that a group with an empty selector list resolves to the empty set.
  In the code the list of sub-results is then empty and
  \<^verbatim>\<open>reduce(frozenset.__or__, sub_results)\<close> has no initial value: the call raises
  \<^verbatim>\<open>TypeError\<close>. Here: the sample project and the one group \<open>g = []\<close>.
\<close>

theorem empty_group_raises_TypeError:
  "ServiceSet_resolve ''g'' demo_project [ServiceSet ''g'' []] = Inl TypeError"
  by (simp add: demo_eval)

section \<open>Cycles\<close>

text \<open>
  C4, as stated, at the groups \<open>a = [b]\<close>, \<open>b = [c]\<close>, \<open>c = [b]\<close>: the repeated selector is
  \<open>b\<close>, and the chain from its first occurrence to its repetition is \<open>b -> c -> b\<close>; the
  code reports \<open>a -> b -> c -> b\<close>, the whole stack, and names \<open>a\<close>.
\<close>

theorem cycle_chain_counterexample:
  "ServiceSet_resolve ''a'' demo_project
      [ServiceSet ''a'' [''b''], ServiceSet ''b'' [''c''], ServiceSet ''c'' [''b'']]
     = Inl (Circular ''a'' [''a'', ''b'', ''c'', ''b''])
   \<and> [''a'', ''b'', ''c'', ''b''] \<noteq> [''b'', ''c'', ''b'']"
  by (simp add: demo_eval)

text \<open>
  C4, amended. Whenever resolution of a top-level selector \<open>x\<close> descends through groups
  to a selector that is already being expanded (each selector on the way is a member of
  the group before it, and the members listed before it resolve without error),
  resolution fails with a Circular error that names \<open>x\<close> and whose chain is the whole
  expansion chain, from \<open>x\<close> to the repeated selector, in the order of encounter. The
  chain starts at the first occurrence of the repeated selector exactly when that
  selector is \<open>x\<close>, as for \<open>a = [b]\<close>, \<open>b = [a]\<close>, where it is \<open>a -> b -> a\<close>.
\<close>

theorem cycle_reports_whole_expansion_chain:
  assumes "descends \<lparr>project = proj, service_sets_by_name = by_name service_sets,
                      selector_stack = []\<rparr> x ys"
  shows "ServiceSet_resolve x proj service_sets = Inl (Circular x (x # ys))"
  using descends_circular[OF assms] by (simp add: ServiceSet_resolve_def)

theorem cycle_reports_whole_expansion_chain_witness:
  "ServiceSet_resolve ''a'' demo_project [ServiceSet ''a'' [''b''], ServiceSet ''b'' [''a'']]
     = Inl (Circular ''a'' [''a'', ''b'', ''a''])"
  by (rule cycle_reports_whole_expansion_chain) (simp add: demo_eval)

section \<open>Unknown selectors\<close>

text \<open>
  C5, as stated, at the empty string: it is not "all", no service and no group, and the
  \<^verbatim>\<open>assert selector\<close> at the head of \<^verbatim>\<open>_resolve\<close> raises \<^verbatim>\<open>AssertionError\<close>, which is not
  a \<^verbatim>\<open>BadSelectorException\<close>.
\<close>

theorem empty_selector_counterexample:
  "'''' \<noteq> ''all'' \<and> fmlookup (services_by_name demo_project) '''' = None
   \<and> fmlookup (by_name []) '''' = None
   \<and> ServiceSet_resolve '''' demo_project [] = Inl AssertionError"
  by (simp add: demo_eval)

text \<open>
  C5, amended. For every non-empty selector that is not "all", not a service name and
  not a group name of the namespace, resolution fails with an Unresolved error that names
  the selector and reports the selectors being expanded when it was reached (the stack,
  which holds group names only), followed by the selector itself. For a top-level
  selector nothing is being expanded, and the chain is the selector alone.
\<close>

theorem unknown_selector_is_unresolved:
  assumes "selector \<noteq> []" and "selector \<noteq> ''all''"
    and "fmlookup (services_by_name proj) selector = None"
    and "fmlookup (by_name service_sets) selector = None"
    and "set stack \<subseteq> fmdom' (by_name service_sets)"
  shows "ServiceSet_resolve selector proj service_sets = Inl (Unresolved selector [selector])
    \<and> resolve selector \<lparr>project = proj, service_sets_by_name = by_name service_sets,
                         selector_stack = stack\<rparr>
        = (Inl (Unresolved selector (stack @ [selector])),
           \<lparr>project = proj, service_sets_by_name = by_name service_sets,
            selector_stack = stack\<rparr>)"
proof -
  from assms(4,5) have "selector \<notin> set stack"
    by (auto simp: fmdom'_notI)
  with assms show ?thesis
    by (simp add: ServiceSet_resolve_def resolve.simps Let_def)
qed

theorem unknown_selector_is_unresolved_witness:
  "ServiceSet_resolve ''nonexistent'' demo_project [ServiceSet ''g'' [''nonexistent'']]
      = Inl (Unresolved ''nonexistent'' [''nonexistent''])
   \<and> resolve ''nonexistent''
        \<lparr>project = demo_project,
         service_sets_by_name = by_name [ServiceSet ''g'' [''nonexistent'']],
         selector_stack = [''g'']\<rparr>
      = (Inl (Unresolved ''nonexistent'' [''g'', ''nonexistent'']),
         \<lparr>project = demo_project,
          service_sets_by_name = by_name [ServiceSet ''g'' [''nonexistent'']],
          selector_stack = [''g'']\<rparr>)"
  using unknown_selector_is_unresolved[of "''nonexistent''" demo_project
      "[ServiceSet ''g'' [''nonexistent'']]" "[''g'']"]
  by (simp add: Project_def fmdom'_dict fmlookup_dict by_name_def ServiceSet_def Service_def
        demo_project_def)

section \<open>The messages of the two scenarios\<close>

lemma circular_message:
  "message (Circular ''a'' [''a'', ''b'', ''a''])
     = ''Definition of selector '' @ quoted ''a'' @ '' is circular: a -> b -> a''"
  by (simp add: quoted_def)

lemma unresolved_message:
  "message (Unresolved ''nonexistent'' [''nonexistent''])
     = ''No service or selector named '' @ quoted ''nonexistent''
         @ ''. Reference chain: nonexistent''"
  by (simp add: quoted_def)

section \<open>Groups as unions\<close>

text \<open>
  C2, as stated, at a group that has the name of a service: with the services \<open>api\<close>,
  \<open>db\<close>, \<open>web\<close> and the group \<open>db = [api]\<close>, the member resolves to \<open>{api}\<close>, and the
  group's name to \<open>{db}\<close>: \<^verbatim>\<open>_resolve\<close> looks for "all" and for a service before it looks
  for a group.
\<close>

theorem shadowed_group_counterexample:
  "fmlookup (by_name [ServiceSet ''db'' [''api'']]) ''db'' = Some (ServiceSet ''db'' [''api''])
   \<and> ServiceSet_resolve ''api'' demo_project [ServiceSet ''db'' [''api'']] = Inr {''api''}
   \<and> ServiceSet_resolve ''db'' demo_project [ServiceSet ''db'' [''api'']] = Inr {''db''}
   \<and> ServiceSet_resolve ''db'' demo_project [ServiceSet ''db'' [''api'']] \<noteq> Inr {''api''}"
  by (simp add: demo_eval)

text \<open>
  C2, amended. For every group of the namespace whose name is not empty, is not "all" and
  is not the name of a service, whose selector list is not empty and whose member
  selectors all resolve without error (each on its own, from the top level), resolving
  the group's name returns the union of the results of its member selectors.
\<close>

theorem group_resolves_to_union_of_members:
  assumes "fmlookup (by_name service_sets) name = Some grp"
    and "name \<noteq> []" and "name \<noteq> ''all''"
    and "fmlookup (services_by_name proj) name = None"
    and "selectors grp \<noteq> []"
    and "\<forall>m \<in> set (selectors grp). \<not> isl (ServiceSet_resolve m proj service_sets)"
  shows "ServiceSet_resolve name proj service_sets
           = Inr (\<Union>m \<in> set (selectors grp). projr (ServiceSet_resolve m proj service_sets))"
proof -
  let ?g = "by_name service_sets"
  let ?s0 = "\<lparr>project = proj, service_sets_by_name = ?g, selector_stack = []\<rparr>"
  let ?sn = "\<lparr>project = proj, service_sets_by_name = ?g, selector_stack = [name]\<rparr>"
  let ?f = "\<lambda>m. projr (ServiceSet_resolve m proj service_sets)"
  have each: "\<forall>m \<in> set (selectors grp). resolve m ?sn = (Inr (?f m), ?sn)"
  proof
    fix m assume m: "m \<in> set (selectors grp)"
    obtain a b where ab: "resolve m ?s0 = (a, b)" by (cases "resolve m ?s0")
    with assms(6) m obtain r where r: "a = Inr r"
      by (cases a) (auto simp: ServiceSet_resolve_def)
    with ab have "?f m = r" by (simp add: ServiceSet_resolve_def)
    moreover from ab r have "resolve m ?s0 = (Inr r, b)" by simp
    from member_under_group[OF this assms(1) m assms(3,4)]
    have "resolve m ?sn = (Inr r, ?sn)" .
    ultimately show "resolve m ?sn = (Inr (?f m), ?sn)" by simp
  qed
  from resolve_map_all_return[OF each]
  have "resolve_map (selectors grp) ?sn = (Inr (map ?f (selectors grp)), ?sn)" .
  moreover have "reduce_or (map ?f (selectors grp)) = Inr (\<Union>m \<in> set (selectors grp). ?f m)"
    using assms(5) by (simp add: reduce_or_union)
  ultimately have "resolve name ?s0 = (Inr (\<Union>m \<in> set (selectors grp). ?f m), ?s0)"
    using assms(1-4)
    by (subst resolve.simps) (simp add: od_popitem_def od_setitem_def)
  then show ?thesis by (simp add: ServiceSet_resolve_def)
qed

theorem group_resolves_to_union_of_members_witness:
  "ServiceSet_resolve ''everything'' demo_project
      [ServiceSet ''web_stack'' [''api'', ''web''],
       ServiceSet ''everything'' [''web_stack'', ''db'']]
     = Inr {''api'', ''web'', ''db''}"
  using group_resolves_to_union_of_members[of
      "[ServiceSet ''web_stack'' [''api'', ''web''],
        ServiceSet ''everything'' [''web_stack'', ''db'']]"
      "''everything''" "ServiceSet ''everything'' [''web_stack'', ''db'']" demo_project]
  by (simp add: demo_eval insert_commute)

section \<open>The facade\<close>

lemma fmdom'_by_name: "fmdom' (by_name service_sets) = ss_name ` set service_sets"
  by (simp add: by_name_def fmdom'_dict image_image)

text \<open>
  C6. Resolving "default" through the facade resolves the profile's default selector when
  the profile has one (a string that is not empty: \<^verbatim>\<open>or\<close> passes over \<^verbatim>\<open>None\<close> and over the
  empty string, which the loader turns into \<^verbatim>\<open>None\<close> anyway) and the project's default
  selector otherwise. For every selector the resolver gets the namespace built from the
  project's groups followed by the profile's, whose keys are the names of both.
\<close>

theorem default_selector_and_namespace:
  "(prof_default_selector (ads_profile self) = Some d \<and> d \<noteq> []
      \<longrightarrow> Ads_resolve self ''default''
          = ServiceSet_resolve d (ads_project self)
              (proj_service_sets (ads_project self) @ prof_service_sets (ads_profile self)))
   \<and> (prof_default_selector (ads_profile self) = None
        \<or> prof_default_selector (ads_profile self) = Some []
      \<longrightarrow> Ads_resolve self ''default''
          = ServiceSet_resolve (proj_default_selector (ads_project self)) (ads_project self)
              (proj_service_sets (ads_project self) @ prof_service_sets (ads_profile self)))
   \<and> Ads_resolve self selector
       = fst (resolve (if selector = ''default'' then get_default_selector self else selector)
                \<lparr>project = ads_project self,
                 service_sets_by_name =
                   by_name (proj_service_sets (ads_project self)
                            @ prof_service_sets (ads_profile self)),
                 selector_stack = []\<rparr>)
   \<and> fmdom' (by_name (proj_service_sets (ads_project self)
                        @ prof_service_sets (ads_profile self)))
       = ss_name ` set (proj_service_sets (ads_project self))
         \<union> ss_name ` set (prof_service_sets (ads_profile self))"
  by (auto simp: Ads_resolve_def get_default_selector_def ServiceSet_resolve_def
        fmdom'_by_name)

theorem default_selector_and_namespace_witness:
  "Ads_resolve (Ads demo_project (Profile [ServiceSet ''backend'' [''api'', ''db'']]
                                    (Some ''backend''))) ''default''
     = Inr {''api'', ''db''}
   \<and> Ads_resolve (Ads demo_project (Profile [] None)) ''default''
     = Inr {''api'', ''db'', ''web''}"
  using default_selector_and_namespace[of
      "Ads demo_project (Profile [ServiceSet ''backend'' [''api'', ''db'']] (Some ''backend''))"
      "''backend''"]
    default_selector_and_namespace[of "Ads demo_project (Profile [] None)"]
  by (simp add: Ads_def Profile_def demo_eval insert_commute)

section \<open>Resolution changes nothing\<close>

text \<open>
  C7. Whatever the selector and whether the call returns or raises, \<^verbatim>\<open>_resolve\<close> leaves
  the project and the namespace (the groups of project and profile) as they were; the
  only object it writes to is the stack, which \<^verbatim>\<open>ServiceSet.resolve\<close> creates for each
  call. So a second call, on the project and the groups as the first call left them and
  with its own new stack, returns what the first call returned.
\<close>

theorem resolution_leaves_project_and_groups_unchanged:
  "project (snd (resolve selector s)) = project s
   \<and> service_sets_by_name (snd (resolve selector s)) = service_sets_by_name s
   \<and> fst (resolve selector
            ((snd (resolve selector
                     \<lparr>project = proj, service_sets_by_name = by_name service_sets,
                      selector_stack = []\<rparr>))
               \<lparr>selector_stack := []\<rparr>))
       = ServiceSet_resolve selector proj service_sets"
proof -
  let ?s0 = "\<lparr>project = proj, service_sets_by_name = by_name service_sets,
              selector_stack = []\<rparr>"
  let ?s1 = "snd (resolve selector ?s0)"
  from resolve_frame(1)[of selector ?s0]
  have "project ?s1 = proj" and "service_sets_by_name ?s1 = by_name service_sets"
    by simp_all
  then have "?s1\<lparr>selector_stack := []\<rparr> = ?s0"
    by (cases ?s1) simp
  with resolve_frame(1)[of selector s] show ?thesis
    by (simp add: ServiceSet_resolve_def)
qed

section \<open>Listing with a default that does not resolve\<close>

text \<open>
  What \<^verbatim>\<open>Ads.list\<close> does when the default selector raises \<^verbatim>\<open>BadSelectorException\<close> and is
  not the string "(Unresolved)" itself: it prints the sections, the last one showing the
  default as "(Unresolved)".
\<close>

lemma list_reports_unresolved:
  assumes "Ads_resolve self (get_default_selector self) = Inl e"
    and "is_BadSelectorException e"
    and "get_default_selector self \<noteq> ''(Unresolved)''"
  shows "Ads_list it self =
     pretty_print it
       [(''All services in current project ('' @ proj_name (ads_project self) @ ''):'',
         Service_as_printable_dict (dict_values it (services_by_name (ads_project self))),
         Some ''None (create ads.yml files in this dir tree)''),
        (''Groups defined in current project:'',
         ServiceSet_as_printable_dict (proj_service_sets (ads_project self)),
         Some (''None (add '' @ quoted ''groups'' @ '' to adsroot.yml)'')),
        (''Groups defined in your ads profile:'',
         ServiceSet_as_printable_dict (prof_service_sets (ads_profile self)),
         Some (''None (add '' @ quoted ''groups'' @ '' to ~/.ads_profile.yml)'')),
        (''Default service for commands if none are specified:'',
         dict [(get_default_selector self, ''(Unresolved)'')],
         None)]"
  using assms by (auto simp: Ads_list_def Let_def)

text \<open>
  C8. The claim is that \<^verbatim>\<open>list()\<close> completes and reports "(Unresolved)" whenever the
  default selector fails to resolve. Two inputs where it raises instead. The default
  selector "(Unresolved)", which names nothing: the \<^verbatim>\<open>BadSelectorException\<close> is caught,
  the description "(Unresolved)" then equals the selector, and the lookup of a service of
  that name raises \<^verbatim>\<open>KeyError\<close>. The default selector \<open>g\<close> with the group \<open>g = []\<close>:
  resolution raises \<^verbatim>\<open>TypeError\<close>, which the \<^verbatim>\<open>except\<close> clause does not catch.
\<close>

theorem list_raises_for_unresolved_default:
  "Ads_resolve (Ads (Project ''demo'' ''/demo'' [] [] ''(Unresolved)'') (Profile [] None))
      ''(Unresolved)''
     = Inl (Unresolved ''(Unresolved)'' [''(Unresolved)''])
   \<and> Ads_list it (Ads (Project ''demo'' ''/demo'' [] [] ''(Unresolved)'') (Profile [] None))
     = Inl (KeyError ''(Unresolved)'')
   \<and> Ads_list it (Ads (Project ''demo'' ''/demo'' [] [ServiceSet ''g'' []] ''g'')
                       (Profile [] None))
     = Inl TypeError"
  by (simp add: Ads_list_def get_default_selector_def Ads_def Profile_def demo_eval)

section \<open>Cache round trip\<close>




section \<open>Groups of the same name in project and profile\<close>


lemma lookup_by_name_Cons:
  "fmlookup (by_name (x # xs)) k
     = (case fmlookup (by_name xs) k of
          Some g \<Rightarrow> Some g
        | None \<Rightarrow> if ss_name x = k then Some x else None)"
  by (simp add: by_name_def fmlookup_dict map_add_def split: option.split)




text \<open>With distinct names, every group of a list is the one its name stands for.\<close>

lemma by_name_of_member:
  "g \<in> set service_sets \<Longrightarrow> distinct (map ss_name service_sets)
     \<Longrightarrow> fmlookup (by_name service_sets) (ss_name g) = Some g"
proof (induction service_sets)
  case Nil
  then show ?case by simp
next
  case (Cons x xs)
  show ?case
  proof (cases "g = x")
    case True
    from Cons.prems(2) have "ss_name x \<notin> ss_name ` set xs" by simp
    then have "fmlookup (by_name xs) (ss_name x) = None"
      using fmdom'_by_name[of xs] by (simp add: fmdom'_notD)
    with True show ?thesis by (simp add: lookup_by_name_Cons)
  next
    case False
    with Cons have "fmlookup (by_name xs) (ss_name g) = Some g" by simp
    then show ?thesis by (simp add: lookup_by_name_Cons)
  qed
qed




end
